theory Spec2Isabelle
  imports Complex_Main
begin

section \<open>The record store script (BD1/main.py)\<close>

text \<open>
  The script is a straight line of calls into Python's \<^verbatim>\<open>sqlite3\<close> module. The calls
  are steps over an explicit world: the store file \<^verbatim>\<open>example.db\<close>, the connection, the
  cursor's pending result, the variable \<^verbatim>\<open>users\<close> and standard output. A step
  returns the world it leaves behind and the exception it raised, if any; the first
  exception ends the script, since the script catches none.

  The engine and the interpreter are not part of the repository. They are modelled as
  far as the three SQL statements of the script need them, for tables whose columns
  are declared the way the script declares them (\<^verbatim>\<open>INTEGER PRIMARY KEY AUTOINCREMENT\<close>
  keys, optional \<^verbatim>\<open>NOT NULL\<close>):
  \<^item> the engine keeps, per table with such a key, an entry in its own table
    \<^verbatim>\<open>sqlite_sequence\<close>; the entry is the field \<open>seq\<close> of the table here, and
    \<^verbatim>\<open>sqlite_sequence\<close> is not an entry of the map of tables (\<open>table_names\<close> lists it);
  \<^item> a new row gets the key after the larger of that entry and the largest key in the
    table; when that is \<open>2^63 - 1\<close> the insertion fails (\<^verbatim>\<open>SQLITE_FULL\<close>), and the engine
    then rolls back and ends the whole transaction;
  \<^item> \<^verbatim>\<open>sqlite3\<close> opens a transaction before the first \<^verbatim>\<open>INSERT\<close> and closes it at
    \<^verbatim>\<open>commit()\<close>; a \<^verbatim>\<open>CREATE TABLE\<close> outside a transaction is written at once;
  \<^item> what a transaction has written and not committed is lost when the connection is
    closed, so the store file holds the last committed state;
  \<^item> when the process ends, with an exception or without, the interpreter destroys the
    connection object, which closes a connection that is still open;
  \<^item> column types are recorded and not enforced (SQLite's columns are not strict).
\<close>

subsection \<open>Values, tables, the store\<close>

datatype sqlval = SqlNull | SqlInt int | SqlText string

datatype sqltype = INTEGER | TEXT

record column =
  col_name :: string
  col_type :: sqltype
  primary_key_autoincrement :: bool
  not_null :: bool

type_synonym row = "sqlval list"

record table =
  columns :: "column list"
  rows :: "row list"
  seq :: int

type_synonym database = "string \<rightharpoonup> table"

datatype py_error =
    OperationalError string
  | IntegrityError string
  | ProgrammingError string
  | IndexError
  | ValueError
  | Unmodelled

datatype statement =
    CREATE_TABLE_IF_NOT_EXISTS string "column list"
  | SELECT_ALL_FROM string

datatype dml = INSERT_INTO string "string list"

datatype connection = Closed | Idle | InTransaction database

fun is_closed :: "connection \<Rightarrow> bool" where
  "is_closed Closed = True"
| "is_closed Idle = False"
| "is_closed (InTransaction d) = False"

record world =
  store :: database
  openable :: bool
  writable :: bool
  connection :: connection
  cursor :: "row list"
  users :: "row list"
  stdout :: "string list"
  closes :: nat

type_synonym step = "world \<Rightarrow> world \<times> py_error option"

subsection \<open>The engine\<close>

definition max_key :: int where
  "max_key = 9223372036854775807"

definition disk_full :: py_error where
  "disk_full = OperationalError ''database or disk is full''"

text \<open>The keys a row holds: the integers in its key columns.\<close>

definition key_values :: "column list \<Rightarrow> row \<Rightarrow> int list" where
  "key_values cs r =
     concat (map (\<lambda>(c, v). case v of
                                SqlInt k \<Rightarrow> if primary_key_autoincrement c then [k] else []
                              | _ \<Rightarrow> [])
               (zip cs r))"

text \<open>The larger of the table's \<^verbatim>\<open>sqlite_sequence\<close> entry and the largest key among its
  rows.\<close>

definition largest_key :: "table \<Rightarrow> int" where
  "largest_key t = fold max (concat (map (key_values (columns t)) (rows t))) (seq t)"

definition next_key :: "table \<Rightarrow> py_error + int" where
  "next_key t =
     (if max_key \<le> largest_key t then Inl disk_full else Inr (largest_key t + 1))"

definition cell :: "(string \<times> sqlval) list \<Rightarrow> int \<Rightarrow> column \<Rightarrow> sqlval" where
  "cell named k c =
     (if primary_key_autoincrement c then SqlInt k
      else case map_of named (col_name c) of None \<Rightarrow> SqlNull | Some v \<Rightarrow> v)"

definition violates_not_null :: "column list \<Rightarrow> row \<Rightarrow> bool" where
  "violates_not_null cs r = list_ex (\<lambda>(c, v). not_null c \<and> v = SqlNull) (zip cs r)"

text \<open>
  One execution of \<^verbatim>\<open>INSERT INTO t (names) VALUES (?, ...)\<close> with the bound values
  \<open>vals\<close>. A statement that binds a value to the key column itself (an explicit row id)
  is outside the model; the script's statement names \<^verbatim>\<open>name, age, rol\<close> only.
\<close>

definition insert_row :: "table \<Rightarrow> string list \<Rightarrow> row \<Rightarrow> py_error + table" where
  "insert_row t names vals =
     (if length vals \<noteq> length names
        then Inl (ProgrammingError ''Incorrect number of bindings supplied'')
      else if list_ex (\<lambda>c. primary_key_autoincrement c \<and> col_name c \<in> set names) (columns t)
        then Inl Unmodelled
      else if list_ex primary_key_autoincrement (columns t) then
        (case next_key t of
           Inl e \<Rightarrow> Inl e
         | Inr k \<Rightarrow>
             (let r = map (cell (zip names vals) k) (columns t) in
              if violates_not_null (columns t) r
                then Inl (IntegrityError ''NOT NULL constraint failed'')
              else Inr (t\<lparr>rows := rows t @ [r], seq := k\<rparr>)))
      else
        (let r = map (cell (zip names vals) 0) (columns t) in
         if violates_not_null (columns t) r
           then Inl (IntegrityError ''NOT NULL constraint failed'')
         else Inr (t\<lparr>rows := rows t @ [r]\<rparr>)))"

fun insert_all :: "string \<Rightarrow> string list \<Rightarrow> database \<Rightarrow> row list \<Rightarrow> database \<times> py_error option" where
  "insert_all name names d [] = (d, None)"
| "insert_all name names d (p # ps) =
     (case d name of
        None \<Rightarrow> (d, Some (OperationalError ''no such table''))
      | Some t \<Rightarrow>
          (case insert_row t names p of
             Inl e \<Rightarrow> (d, Some e)
           | Inr t' \<Rightarrow> insert_all name names (d(name \<mapsto> t')) ps))"

text \<open>What the connection reads, and where it writes: the open transaction if there
  is one, the store file otherwise.\<close>

definition view :: "world \<Rightarrow> database" where
  "view w = (case connection w of InTransaction d \<Rightarrow> d | _ \<Rightarrow> store w)"

definition write_db :: "world \<Rightarrow> database \<Rightarrow> world" where
  "write_db w d =
     (case connection w of
        InTransaction _ \<Rightarrow> w\<lparr>connection := InTransaction d\<rparr>
      | _ \<Rightarrow> w\<lparr>store := d\<rparr>)"

definition begin_transaction :: "world \<Rightarrow> world" where
  "begin_transaction w =
     (case connection w of Idle \<Rightarrow> w\<lparr>connection := InTransaction (store w)\<rparr> | _ \<Rightarrow> w)"

text \<open>The engine's own rollback: the transaction ends and what it wrote is dropped.\<close>

definition rollback :: "world \<Rightarrow> world" where
  "rollback w =
     (case connection w of InTransaction _ \<Rightarrow> w\<lparr>connection := Idle\<rparr> | _ \<Rightarrow> w)"

subsection \<open>The calls of the sqlite3 module\<close>

definition closed_error :: py_error where
  "closed_error = ProgrammingError ''Cannot operate on a closed database.''"

text \<open>\<^verbatim>\<open>sqlite3.connect('example.db')\<close>: the world's store is that file; a file that is
  not there yet is the empty database.\<close>

definition connect :: step where
  "connect w =
     (if openable w then (w\<lparr>connection := Idle\<rparr>, None)
      else (w, Some (OperationalError ''unable to open database file'')))"

definition new_cursor :: step where
  "new_cursor w =
     (if is_closed (connection w) then (w, Some closed_error)
      else (w\<lparr>cursor := []\<rparr>, None))"

fun execute :: "statement \<Rightarrow> step" where
  "execute (CREATE_TABLE_IF_NOT_EXISTS name cols) w =
     (if is_closed (connection w) then (w, Some closed_error)
      else if view w name \<noteq> None then (w\<lparr>cursor := []\<rparr>, None)
      else if \<not> writable w
        then (w, Some (OperationalError ''attempt to write a readonly database''))
      else (write_db (w\<lparr>cursor := []\<rparr>)
              ((view w)(name \<mapsto> \<lparr>columns = cols, rows = [], seq = 0\<rparr>)), None))"
| "execute (SELECT_ALL_FROM name) w =
     (if is_closed (connection w) then (w, Some closed_error)
      else case view w name of
        None \<Rightarrow> (w, Some (OperationalError ''no such table''))
      | Some t \<Rightarrow> (w\<lparr>cursor := rows t\<rparr>, None))"

fun executemany :: "dml \<Rightarrow> row list \<Rightarrow> step" where
  "executemany (INSERT_INTO name names) params w =
     (if is_closed (connection w) then (w, Some closed_error)
      else case view w name of
        None \<Rightarrow> (w, Some (OperationalError ''no such table''))
      | Some t \<Rightarrow>
          if \<not> set names \<subseteq> set (map col_name (columns t))
            then (w, Some (OperationalError ''table has no such column''))
          else
            (let w1 = begin_transaction w in
             if params \<noteq> [] \<and> \<not> writable w
               then (w1, Some (OperationalError ''attempt to write a readonly database''))
             else case insert_all name names (view w1) params of
               (d, e) \<Rightarrow>
                 if e = Some disk_full then (rollback w1, e) else (write_db w1 d, e)))"

definition commit :: step where
  "commit w =
     (case connection w of
        Closed \<Rightarrow> (w, Some closed_error)
      | Idle \<Rightarrow> (w, None)
      | InTransaction d \<Rightarrow> (w\<lparr>store := d, connection := Idle\<rparr>, None))"

text \<open>\<^verbatim>\<open>users = cursor.fetchall()\<close>\<close>

definition fetchall_users :: step where
  "fetchall_users w =
     (if is_closed (connection w) then (w, Some closed_error)
      else (w\<lparr>users := cursor w, cursor := []\<rparr>, None))"

text \<open>\<^verbatim>\<open>connection.close()\<close>: \<open>closes\<close> counts the releases of an open connection,
  by this call or by the interpreter's exit.\<close>

definition close :: step where
  "close w =
     (if is_closed (connection w) then (w, None)
      else (w\<lparr>connection := Closed, closes := closes w + 1\<rparr>, None))"

subsection \<open>Printing\<close>

definition digit :: "nat \<Rightarrow> char" where
  "digit n = ''0123456789'' ! n"

function show_nat :: "nat \<Rightarrow> string" where
  "show_nat n = (if n < 10 then [digit n] else show_nat (n div 10) @ [digit (n mod 10)])"
  by pat_completeness auto
termination
  by (relation "measure id") auto

definition show_int :: "int \<Rightarrow> string" where
  "show_int i = (if i < 0 then CHR ''-'' # show_nat (nat (- i)) else show_nat (nat i))"

fun py_str :: "sqlval \<Rightarrow> string" where
  "py_str SqlNull = ''None''"
| "py_str (SqlInt i) = show_int i"
| "py_str (SqlText s) = s"

definition item :: "row \<Rightarrow> nat \<Rightarrow> py_error + sqlval" where
  "item u i = (if i < length u then Inr (u ! i) else Inl IndexError)"

text \<open>\<^verbatim>\<open>f"User -> {user[1]} | Age -> {user[2]} | Rol -> {user[3]}"\<close>\<close>

definition format_user :: "row \<Rightarrow> py_error + string" where
  "format_user user =
     (case item user 1 of Inl e \<Rightarrow> Inl e | Inr a \<Rightarrow>
     (case item user 2 of Inl e \<Rightarrow> Inl e | Inr b \<Rightarrow>
     (case item user 3 of Inl e \<Rightarrow> Inl e | Inr c \<Rightarrow>
        Inr (''User -> '' @ py_str a @ '' | Age -> '' @ py_str b @ '' | Rol -> '' @ py_str c))))"

definition print :: "string \<Rightarrow> step" where
  "print line w = (w\<lparr>stdout := stdout w @ [line]\<rparr>, None)"

fun print_users :: "row list \<Rightarrow> step" where
  "print_users [] w = (w, None)"
| "print_users (user # rest) w =
     (case format_user user of
        Inl e \<Rightarrow> (w, Some e)
      | Inr line \<Rightarrow> print_users rest (fst (print line w)))"

subsection \<open>The script\<close>

fun script :: "step list \<Rightarrow> step" where
  "script [] w = (w, None)"
| "script (s # ss) w =
     (case s w of
        (w', None) \<Rightarrow> script ss w'
      | (w', Some e) \<Rightarrow> (w', Some e))"

definition users_columns :: "column list" where
  "users_columns =
     [\<lparr>col_name = ''id'', col_type = INTEGER, primary_key_autoincrement = True, not_null = False\<rparr>,
      \<lparr>col_name = ''name'', col_type = TEXT, primary_key_autoincrement = False, not_null = True\<rparr>,
      \<lparr>col_name = ''age'', col_type = INTEGER, primary_key_autoincrement = False, not_null = True\<rparr>,
      \<lparr>col_name = ''rol'', col_type = TEXT, primary_key_autoincrement = False, not_null = True\<rparr>]"

definition create_users :: statement where
  "create_users = CREATE_TABLE_IF_NOT_EXISTS ''users'' users_columns"

definition user_data :: "row list" where
  "user_data =
     [[SqlText ''Basir'', SqlInt 15, SqlText ''normal''],
      [SqlText ''Ana'', SqlInt 25, SqlText ''admin''],
      [SqlText ''Luis'', SqlInt 35, SqlText ''normal''],
      [SqlText ''Maria'', SqlInt 28, SqlText ''admin'']]"

definition insert_users :: dml where
  "insert_users = INSERT_INTO ''users'' [''name'', ''age'', ''rol'']"

definition header :: string where
  "header = ''------ Usuarios en la base de datos ------''"

definition main :: step where
  "main =
     script
       [connect,
        new_cursor,
        execute create_users,
        executemany insert_users user_data,
        commit,
        execute (SELECT_ALL_FROM ''users''),
        fetchall_users,
        print header,
        (\<lambda>w. print_users (users w) w),
        close]"

text \<open>A new process on a store: nothing is connected, bound or printed yet.\<close>

definition process :: "database \<Rightarrow> bool \<Rightarrow> bool \<Rightarrow> world" where
  "process d can_open can_write =
     \<lparr>store = d, openable = can_open, writable = can_write,
      connection = Closed, cursor = [], users = [], stdout = [], closes = 0\<rparr>"

definition empty_store :: database where
  "empty_store = Map.empty"

text \<open>
  The process \<^verbatim>\<open>python main.py\<close>: the script, and then the interpreter's exit, which
  destroys the connection object and so closes a connection the script left open. The
  exception that ended the script, if any, is what the process reports.
\<close>

definition interpreter_exit :: "world \<Rightarrow> world" where
  "interpreter_exit w =
     (if is_closed (connection w) then w
      else w\<lparr>connection := Closed, closes := closes w + 1\<rparr>)"

definition python_main :: step where
  "python_main w = (case main w of (w', e) \<Rightarrow> (interpreter_exit w', e))"

text \<open>The next run of the script, on the store file the last one left.\<close>

definition next_process :: "world \<Rightarrow> world" where
  "next_process w = process (store w) (openable w) (writable w)"

text \<open>The first seven statements of the script work on the store; the rest prints and
  closes.\<close>

definition store_steps :: "step list" where
  "store_steps =
     [connect,
      new_cursor,
      execute create_users,
      executemany insert_users user_data,
      commit,
      execute (SELECT_ALL_FROM ''users''),
      fetchall_users]"

definition render_steps :: "step list" where
  "render_steps = [print header, (\<lambda>w. print_users (users w) w)]"

subsection \<open>Reading a store\<close>

definition stored_users :: "database \<Rightarrow> row list" where
  "stored_users d = (case d ''users'' of None \<Rightarrow> [] | Some t \<Rightarrow> rows t)"



text \<open>A store against an earlier one: every other table is the same, and the rows of
  the users table are the earlier rows followed by new ones.\<close>

definition appended :: "database \<Rightarrow> database \<Rightarrow> bool" where
  "appended d d' =
     (d'(''users'' := None) = d(''users'' := None) \<and>
      (\<exists>new. stored_users d' = stored_users d @ new))"

text \<open>The users table is missing or is the one the script creates.\<close>

definition own_schema :: "database \<Rightarrow> bool" where
  "own_schema d = (case d ''users'' of None \<Rightarrow> True | Some t \<Rightarrow> columns t = users_columns)"

definition last_key :: "database \<Rightarrow> int" where
  "last_key d = (case d ''users'' of None \<Rightarrow> 0 | Some t \<Rightarrow> largest_key t)"

text \<open>The tables of the store file as the engine lists them: the declared tables, and
  \<^verbatim>\<open>sqlite_sequence\<close> once a table with an auto-increment key has been created.\<close>

definition has_autoincrement :: "database \<Rightarrow> bool" where
  "has_autoincrement d =
     (\<exists>name t. d name = Some t \<and> list_ex primary_key_autoincrement (columns t))"

definition table_names :: "database \<Rightarrow> string set" where
  "table_names d = dom d \<union> (if has_autoincrement d then {''sqlite_sequence''} else {})"

text \<open>The rows a batch becomes when the keys after \<open>k\<close> are given to it in order.\<close>

fun with_keys :: "int \<Rightarrow> row list \<Rightarrow> row list" where
  "with_keys k [] = []"
| "with_keys k (p # ps) = (SqlInt (k + 1) # p) # with_keys (k + 1) ps"

text \<open>A user record as the data model has it, and the row that holds it.\<close>

type_synonym user = "int \<times> string \<times> int \<times> string"

fun user_row :: "user \<Rightarrow> row" where
  "user_row (i, name, age, rol) = [SqlInt i, SqlText name, SqlInt age, SqlText rol]"

fun user_line :: "user \<Rightarrow> string" where
  "user_line (i, name, age, rol) =
     ''User -> '' @ name @ '' | Age -> '' @ show_int age @ '' | Rol -> '' @ rol"

subsection \<open>Three stores to run the script on\<close>

text \<open>A store file that exists, is empty and cannot be written.\<close>

definition read_only_process :: world where
  "read_only_process = process empty_store True False"

text \<open>A users table that has held the key \<open>2^63 - 3\<close>: two keys are left.\<close>

definition nearly_full_store :: database where
  "nearly_full_store =
     [''users'' \<mapsto>
        \<lparr>columns = users_columns,
         rows = [[SqlInt (max_key - 2), SqlText ''Zoe'', SqlInt 40, SqlText ''admin'']],
         seq = max_key - 2\<rparr>]"

text \<open>A users table whose \<^verbatim>\<open>sqlite_sequence\<close> entry is behind its rows.\<close>

definition lagging_store :: database where
  "lagging_store =
     [''users'' \<mapsto>
        \<lparr>columns = users_columns,
         rows = [[SqlInt 50, SqlText ''Zoe'', SqlInt 40, SqlText ''admin'']],
         seq = 0\<rparr>]"

section \<open>The circle class (shape/nivel1/circle.py)\<close>

text \<open>
  \<^verbatim>\<open>_radius\<close> is a property of the class, so the assignment \<^verbatim>\<open>self._radius = value\<close>
  calls the setter, in \<^verbatim>\<open>__init__\<close> and in the setter itself; no instance ever stores a
  radius. The setter's recursion has no base case; not returning is the value \<open>None\<close>.
  (CPython ends the recursion with a \<^verbatim>\<open>RecursionError\<close> when its stack limit is hit.)
  The radius is a real number: the only operation on it is the comparison with zero.
\<close>

datatype circle = Circle_instance

partial_function (option) radius_setter :: "circle \<Rightarrow> real \<Rightarrow> (py_error + circle) option" where
  "radius_setter self value =
     (if value < 0 then Some (Inl ValueError) else radius_setter self value)"

definition Circle :: "real \<Rightarrow> (py_error + circle) option" where
  "Circle radius = radius_setter Circle_instance radius"

section \<open>Properties of the record store script\<close>

subsection \<open>Running a script\<close>

lemma script_append:
  "script (xs @ ys) w =
     (case script xs w of (w', None) \<Rightarrow> script ys w' | (w', Some e) \<Rightarrow> (w', Some e))"
  by (induction xs arbitrary: w) (auto split: prod.splits option.splits)

lemma result_eta:
  "(case r of (w', None) \<Rightarrow> (w', None) | (w', Some e) \<Rightarrow> (w', Some e)) = (r :: world \<times> py_error option)"
  by (cases r) (auto split: option.splits)

lemma script_single: "script [s] w = s w"
  by (cases "s w") (auto split: option.splits)

lemma main_split: "main = script (store_steps @ render_steps @ [close])"
  by (simp add: main_def store_steps_def render_steps_def)

lemma script_invariant:
  assumes steps: "\<forall>s\<in>set ss. \<forall>w w' e. I w \<longrightarrow> s w = (w', e) \<longrightarrow> I w'"
    and start: "I w"
    and run: "script ss w = (w', e)"
  shows "I w'"
  using steps start run
proof (induction ss arbitrary: w)
  case Nil
  then show ?case by simp
next
  case (Cons s ss)
  obtain w1 e1 where s: "s w = (w1, e1)" by (cases "s w")
  have "s \<in> set (s # ss)" by simp
  from bspec [OF Cons.prems(1) this] Cons.prems(2) s have I1: "I w1" by blast
  have later: "\<forall>s\<in>set ss. \<forall>w w' e. I w \<longrightarrow> s w = (w', e) \<longrightarrow> I w'"
  proof
    fix s' assume "s' \<in> set ss"
    then have "s' \<in> set (s # ss)" by simp
    from bspec [OF Cons.prems(1) this]
    show "\<forall>w w' e. I w \<longrightarrow> s' w = (w', e) \<longrightarrow> I w'" .
  qed
  show ?case
  proof (cases e1)
    case None
    from Cons.prems(3) have "script ss w1 = (w', e)"
      unfolding script.simps s None by simp
    with later I1 show ?thesis by (rule Cons.IH)
  next
    case (Some a)
    from Cons.prems(3) have "w' = w1"
      unfolding script.simps s Some by simp
    with I1 show ?thesis by simp
  qed
qed

lemma write_db_simps:
  "stdout (write_db w d) = stdout w" "closes (write_db w d) = closes w"
  "is_closed (connection (write_db w d)) = is_closed (connection w)"
  "users (write_db w d) = users w" "cursor (write_db w d) = cursor w"
  "openable (write_db w d) = openable w" "writable (write_db w d) = writable w"
  by (auto simp: write_db_def view_def split: connection.splits)

lemma begin_transaction_simps:
  "stdout (begin_transaction w) = stdout w" "closes (begin_transaction w) = closes w"
  "is_closed (connection (begin_transaction w)) = is_closed (connection w)"
  "users (begin_transaction w) = users w" "cursor (begin_transaction w) = cursor w"
  "openable (begin_transaction w) = openable w" "writable (begin_transaction w) = writable w"
  "store (begin_transaction w) = store w"
  "view (begin_transaction w) = view w"
  by (auto simp: begin_transaction_def view_def split: connection.splits)

lemma rollback_simps:
  "stdout (rollback w) = stdout w" "closes (rollback w) = closes w"
  "is_closed (connection (rollback w)) = is_closed (connection w)"
  "store (rollback w) = store w" "view (rollback w) = store w"
  by (auto simp: rollback_def view_def split: connection.splits)

lemma connect_frame:
  "connect w = (w', e) \<Longrightarrow> stdout w' = stdout w \<and> closes w' = closes w \<and> store w' = store w"
  by (auto simp: connect_def split: if_splits)

lemma connect_opens:
  "connect w = (w', None) \<Longrightarrow> \<not> is_closed (connection w') \<and> view w' = store w"
  by (auto simp: connect_def view_def split: if_splits)

lemma new_cursor_frame:
  "new_cursor w = (w', e) \<Longrightarrow>
     stdout w' = stdout w \<and> closes w' = closes w \<and> store w' = store w \<and> connection w' = connection w"
  by (auto simp: new_cursor_def split: if_splits)

lemma execute_frame:
  "execute q w = (w', e) \<Longrightarrow>
     stdout w' = stdout w \<and> closes w' = closes w \<and>
     is_closed (connection w') = is_closed (connection w)"
  by (cases q) (auto simp: write_db_simps split: if_splits option.splits)

lemma executemany_frame:
  "executemany q ps w = (w', e) \<Longrightarrow>
     stdout w' = stdout w \<and> closes w' = closes w \<and>
     is_closed (connection w') = is_closed (connection w)"
  by (cases q)
    (auto simp: write_db_simps begin_transaction_simps rollback_simps Let_def
      split: if_splits option.splits prod.splits)

lemma commit_frame:
  "commit w = (w', e) \<Longrightarrow>
     stdout w' = stdout w \<and> closes w' = closes w \<and>
     is_closed (connection w') = is_closed (connection w)"
  by (auto simp: commit_def split: connection.splits)

lemma fetchall_users_frame:
  "fetchall_users w = (w', e) \<Longrightarrow>
     stdout w' = stdout w \<and> closes w' = closes w \<and> store w' = store w \<and>
     connection w' = connection w"
  by (auto simp: fetchall_users_def split: if_splits)

lemma store_step_quiet:
  "\<forall>s\<in>set store_steps. \<forall>w' v e. (stdout w' = stdout w \<and> closes w' = closes w) \<longrightarrow> s w' = (v, e) \<longrightarrow> (stdout v = stdout w \<and> closes v = closes w)"
  unfolding store_steps_def
  by (auto simp del: execute.simps executemany.simps
      dest: connect_frame new_cursor_frame execute_frame executemany_frame
      commit_frame fetchall_users_frame)

lemma store_step_open:
  "\<forall>s\<in>set (tl store_steps). \<forall>w v e. \<not> is_closed (connection w) \<longrightarrow> s w = (v, e)
    \<longrightarrow> \<not> is_closed (connection v)"
  unfolding store_steps_def
  by (auto simp del: execute.simps executemany.simps
      dest: new_cursor_frame execute_frame executemany_frame
      commit_frame fetchall_users_frame)

lemma print_users_frame:
  "print_users us w = (w', e) \<Longrightarrow>
     closes w' = closes w \<and> connection w' = connection w \<and> store w' = store w \<and>
     (e = None \<or> e = Some IndexError)"
  by (induction us arbitrary: w)
    (auto simp: print_def format_user_def item_def split: sum.splits if_splits)

lemma store_steps_result:
  assumes "script store_steps w = (w1, e)"
  shows "stdout w1 = stdout w \<and> closes w1 = closes w"
    and "e = None \<Longrightarrow> \<not> is_closed (connection w1)"
    and "openable w \<Longrightarrow> \<not> is_closed (connection w1)"
proof -
  show "stdout w1 = stdout w \<and> closes w1 = closes w"
    using script_invariant [where I = "\<lambda>v. stdout v = stdout w \<and> closes v = closes w",
        OF store_step_quiet _ assms]
    by simp
  obtain wc ec where c: "connect w = (wc, ec)" by (cases "connect w")
  have after_connect: "\<not> is_closed (connection w1)" if ok: "ec = None"
  proof -
    from c ok have opened: "\<not> is_closed (connection wc)" by (simp add: connect_opens)
    have rest: "script (tl store_steps) wc = (w1, e)"
      using assms c ok by (simp add: store_steps_def)
    show ?thesis
      using script_invariant [where I = "\<lambda>v. \<not> is_closed (connection v)",
          OF store_step_open opened rest] .
  qed
  show "\<not> is_closed (connection w1)" if "e = None"
  proof (cases ec)
    case None
    then show ?thesis by (rule after_connect)
  next
    case (Some a)
    with assms c that show ?thesis by (simp add: store_steps_def)
  qed
  show "\<not> is_closed (connection w1)" if "openable w"
  proof -
    from c that have "ec = None" by (auto simp: connect_def)
    then show ?thesis by (rule after_connect)
  qed
qed

subsection \<open>Evaluating a run\<close>

lemmas run_defs = main_def process_def empty_store_def connect_def new_cursor_def create_users_def
  insert_users_def user_data_def users_columns_def commit_def fetchall_users_def close_def
  print_def header_def view_def write_db_def begin_transaction_def insert_row_def next_key_def
  max_key_def cell_def violates_not_null_def format_user_def item_def show_int_def digit_def
  closed_error_def next_process_def disk_full_def key_values_def largest_key_def rollback_def
  interpreter_exit_def python_main_def

lemma first_run:
  "main (process empty_store True True) =
     (\<lparr>store = [''users'' \<mapsto> \<lparr>columns = users_columns, rows = with_keys 0 user_data, seq = 4\<rparr>],
       openable = True, writable = True,
       connection = Closed, cursor = [], users = with_keys 0 user_data,
       stdout = header # map user_line [(1, ''Basir'', 15, ''normal''), (2, ''Ana'', 25, ''admin''),
          (3, ''Luis'', 35, ''normal''), (4, ''Maria'', 28, ''admin'')],
       closes = 1\<rparr>, None)"
  by (simp add: run_defs)

lemma second_process:
  "next_process (fst (main (process empty_store True True))) =
     process [''users'' \<mapsto> \<lparr>columns = users_columns, rows = with_keys 0 user_data, seq = 4\<rparr>]
       True True"
  by (simp add: first_run next_process_def)

subsection \<open>Closing the connection\<close>

text \<open>What the script itself does about the connection: it closes it as its last
  statement, and a statement that raises ends the script before that.\<close>

lemma script_close_once:
  "(case script store_steps w of
      (w1, Some e) \<Rightarrow>
        main w = (w1, Some e) \<and> stdout w1 = stdout w \<and> closes w1 = closes w
    | (w1, None) \<Rightarrow>
        (case main w of
           (w', None) \<Rightarrow> closes w' = closes w + 1 \<and> is_closed (connection w')
         | (w', Some e) \<Rightarrow> closes w' = closes w \<and> \<not> is_closed (connection w')))"
proof -
  obtain w1 e1 where s: "script store_steps w = (w1, e1)" by (cases "script store_steps w")
  note r = store_steps_result(1,2) [OF s]
  show ?thesis
  proof (cases e1)
    case (Some e)
    with s r show ?thesis by (simp add: main_split script_append)
  next
    case None
    with r have opened: "\<not> is_closed (connection w1)" by simp
    obtain w2 e2 where p: "print_users (users (fst (print header w1))) (fst (print header w1)) = (w2, e2)"
      by (cases "print_users (users (fst (print header w1))) (fst (print header w1))")
    from print_users_frame [OF p] have
      f: "closes w2 = closes w1" "connection w2 = connection w1" "e2 = None \<or> e2 = Some IndexError"
      by (simp_all add: print_def)
    have m: "main w = (case e2 of None \<Rightarrow> close w2 | Some e \<Rightarrow> (w2, Some e))"
      using s None p
      by (simp add: main_split script_append render_steps_def print_def result_eta
          split: option.splits)
    show ?thesis
      using s None m f r(1) opened by (auto simp: close_def split: option.splits)
  qed
qed

lemma python_main_releases:
  assumes "openable w"
  shows "closes (fst (python_main w)) = closes w + 1 \<and>
    is_closed (connection (fst (python_main w)))"
proof -
  obtain w1 e1 where s: "script store_steps w = (w1, e1)" by (cases "script store_steps w")
  obtain w' e' where m: "main w = (w', e')" by (cases "main w")
  from store_steps_result(3) [OF s assms] have opened: "\<not> is_closed (connection w1)" .
  have "(closes w' = closes w + 1 \<and> is_closed (connection w')) \<or>
      (closes w' = closes w \<and> \<not> is_closed (connection w'))"
    using script_close_once [of w] s m opened by (cases e1; cases e') auto
  with m show ?thesis by (auto simp: python_main_def interpreter_exit_def)
qed

lemma python_main_no_render:
  assumes "script store_steps w = (w1, Some e)"
  shows "snd (python_main w) = Some e \<and> stdout (fst (python_main w)) = stdout w"
  using script_close_once [of w] assms
  by (simp add: python_main_def interpreter_exit_def)

lemma python_main_unopened:
  assumes "\<not> openable w" and "is_closed (connection w)"
  shows "closes (fst (python_main w)) = closes w \<and> snd (python_main w) \<noteq> None"
  using assms by (simp add: python_main_def interpreter_exit_def main_def connect_def)

text \<open>
  C1. A process started on any store, openable or not, writable or not: if the
  connection was opened, it has been released exactly once and is closed when the
  process has ended, on every exit path, by the script's \<^verbatim>\<open>connection.close()\<close> or, after an
  exception, by the interpreter's exit; if it could not be opened, nothing is released.
  When one of the statements before the printing raises (the table creation, the
  batch insert, the commit, the select, the fetch), the process ends with that
  exception and has printed nothing.
\<close>

theorem connection_released_exactly_once:
  "closes (fst (python_main (process d can_open can_write))) = (if can_open then 1 else 0) \<and>
   is_closed (connection (fst (python_main (process d can_open can_write)))) \<and>
   (snd (script store_steps (process d can_open can_write)) \<noteq> None \<longrightarrow>
      snd (python_main (process d can_open can_write)) =
        snd (script store_steps (process d can_open can_write)) \<and>
      stdout (fst (python_main (process d can_open can_write))) = [])"
proof -
  let ?w = "process d can_open can_write"
  have start: "openable ?w = can_open" "closes ?w = 0" "stdout ?w = []"
    "is_closed (connection ?w)"
    by (simp_all add: process_def)
  have released: "closes (fst (python_main ?w)) = (if can_open then 1 else 0) \<and>
      is_closed (connection (fst (python_main ?w)))"
  proof (cases can_open)
    case True
    with python_main_releases [of ?w] start show ?thesis by simp
  next
    case False
    with python_main_unopened [of ?w] start show ?thesis
      by (simp add: python_main_def interpreter_exit_def main_def connect_def process_def)
  qed
  have quiet: "snd (python_main ?w) = snd (script store_steps ?w) \<and>
      stdout (fst (python_main ?w)) = []"
    if "snd (script store_steps ?w) \<noteq> None"
  proof -
    obtain w1 e1 where s: "script store_steps ?w = (w1, e1)"
      by (cases "script store_steps ?w")
    with that obtain e where "e1 = Some e" by auto
    with s python_main_no_render [of ?w w1 e] start show ?thesis by simp
  qed
  from released quiet show ?thesis by blast
qed

text \<open>On an empty store file that cannot be written the table creation raises, and on a
  store whose keys run out the batch insert raises: in both runs the connection is
  released once, by the interpreter's exit, and nothing is printed.\<close>

theorem connection_released_after_failures:
  "snd (script store_steps read_only_process) =
     Some (OperationalError ''attempt to write a readonly database'') \<and>
   closes (fst (main read_only_process)) = 0 \<and>
   closes (fst (python_main read_only_process)) = 1 \<and>
   is_closed (connection (fst (python_main read_only_process))) \<and>
   stdout (fst (python_main read_only_process)) = [] \<and>
   snd (script store_steps (process nearly_full_store True True)) = Some disk_full \<and>
   closes (fst (python_main (process nearly_full_store True True))) = 1 \<and>
   stdout (fst (python_main (process nearly_full_store True True))) = []"
proof -
  have a: "snd (script store_steps read_only_process) =
      Some (OperationalError ''attempt to write a readonly database'')"
    by (simp add: read_only_process_def store_steps_def process_def empty_store_def connect_def
        new_cursor_def create_users_def view_def)
  have b: "closes (fst (main read_only_process)) = 0"
    by (simp add: read_only_process_def main_def process_def empty_store_def connect_def
        new_cursor_def create_users_def view_def)
  have c: "snd (script store_steps (process nearly_full_store True True)) = Some disk_full"
    by (simp add: store_steps_def nearly_full_store_def run_defs)
  from a b c
    connection_released_exactly_once [of empty_store True False]
    connection_released_exactly_once [of nearly_full_store True True]
  show ?thesis by (simp add: read_only_process_def)
qed

subsection \<open>The seed batch\<close>

text \<open>
  C2. A run on an empty store completes, and the rows it fetches are the four seed
  records in the order of the batch, with the keys 1, 2, 3, 4.
\<close>

theorem seed_run_on_empty_store:
  "snd (main (process empty_store True True)) = None \<and>
   users (fst (main (process empty_store True True))) =
     [[SqlInt 1, SqlText ''Basir'', SqlInt 15, SqlText ''normal''],
      [SqlInt 2, SqlText ''Ana'', SqlInt 25, SqlText ''admin''],
      [SqlInt 3, SqlText ''Luis'', SqlInt 35, SqlText ''normal''],
      [SqlInt 4, SqlText ''Maria'', SqlInt 28, SqlText ''admin'']]"
  by (simp add: first_run user_data_def)

text \<open>
  C3. A second run on the store the first run left completes and fetches eight rows,
  keys 1 to 8; rows 5 to 8 repeat the name, age and rol of rows 1 to 4.
\<close>

theorem second_run_duplicates_seed:
  "snd (main (next_process (fst (main (process empty_store True True))))) = None \<and>
   users (fst (main (next_process (fst (main (process empty_store True True)))))) =
     [[SqlInt 1, SqlText ''Basir'', SqlInt 15, SqlText ''normal''],
      [SqlInt 2, SqlText ''Ana'', SqlInt 25, SqlText ''admin''],
      [SqlInt 3, SqlText ''Luis'', SqlInt 35, SqlText ''normal''],
      [SqlInt 4, SqlText ''Maria'', SqlInt 28, SqlText ''admin''],
      [SqlInt 5, SqlText ''Basir'', SqlInt 15, SqlText ''normal''],
      [SqlInt 6, SqlText ''Ana'', SqlInt 25, SqlText ''admin''],
      [SqlInt 7, SqlText ''Luis'', SqlInt 35, SqlText ''normal''],
      [SqlInt 8, SqlText ''Maria'', SqlInt 28, SqlText ''admin'']]"
  by (simp add: first_run) (simp add: run_defs)

subsection \<open>Render\<close>

lemma print_users_rows:
  "print_users (map user_row us) w = (w\<lparr>stdout := stdout w @ map user_line us\<rparr>, None)"
proof (induction us arbitrary: w)
  case Nil
  show ?case by simp
next
  case (Cons u us)
  obtain i name age rol where u: "u = (i, name, age, rol)" by (cases u)
  have "format_user (user_row u) = Inr (user_line u)"
    by (simp add: u format_user_def item_def)
  then show ?case by (simp add: Cons.IH print_def)
qed

text \<open>
  C4. The two printing statements print the header line and then one line per fetched
  record, in the order fetched, each in the format
  \<^verbatim>\<open>User -> <name> | Age -> <age> | Rol -> <role>\<close> (\<open>user_line\<close> is that format); the
  row of Ana is printed as \<^verbatim>\<open>User -> Ana | Age -> 25 | Rol -> admin\<close>, and the header is
  the line the claim quotes.
\<close>

theorem render_prints_header_and_rows:
  "script render_steps (w\<lparr>users := map user_row us\<rparr>) =
     (w\<lparr>users := map user_row us, stdout := stdout w @ header # map user_line us\<rparr>, None) \<and>
   header = ''------ Usuarios en la base de datos ------'' \<and>
   format_user [SqlInt 2, SqlText ''Ana'', SqlInt 25, SqlText ''admin''] =
     Inr ''User -> Ana | Age -> 25 | Rol -> admin''"
  by (simp add: render_steps_def print_def print_users_rows format_user_def item_def
      show_int_def digit_def header_def)

subsection \<open>The schema\<close>

lemma table_names_after_create:
  assumes "d ''users'' = Some t" and "list_ex primary_key_autoincrement (columns t)"
  shows "table_names d = insert ''sqlite_sequence'' (dom d)"
  using assms by (auto simp: table_names_def has_autoincrement_def)




text \<open>
  C6. Creating the table a second time returns what the first time returned and leaves
  the world as the first time left it. A users table that was there is kept as it was,
  rows included; one that was not there is created empty with the script's columns.
  On an open connection to a writable store the statement raises nothing.
\<close>

theorem create_table_idempotent:
  "execute create_users (fst (execute create_users w)) = execute create_users w \<and>
   view (fst (execute create_users w)) ''users'' =
     (case view w ''users'' of
        Some t \<Rightarrow> Some t
      | None \<Rightarrow>
          if snd (execute create_users w) = None
          then Some \<lparr>columns = users_columns, rows = [], seq = 0\<rparr> else None) \<and>
   stored_users (view (fst (execute create_users w))) = stored_users (view w) \<and>
   (\<not> is_closed (connection w) \<and> writable w \<longrightarrow> snd (execute create_users w) = None)"
  by (cases "connection w")
    (auto simp: create_users_def view_def write_db_def stored_users_def split: option.splits)

theorem create_table_idempotent_after_first_run:
  "\<not> is_closed (connection (fst (connect (next_process (fst (main (process empty_store True True))))))) \<and>
   writable (fst (connect (next_process (fst (main (process empty_store True True)))))) \<and>
   snd (execute create_users (fst (connect (next_process (fst (main (process empty_store True True))))))) = None \<and>
   stored_users (view (fst (execute create_users
       (fst (execute create_users
          (fst (connect (next_process (fst (main (process empty_store True True))))))))))) =
     [[SqlInt 1, SqlText ''Basir'', SqlInt 15, SqlText ''normal''],
      [SqlInt 2, SqlText ''Ana'', SqlInt 25, SqlText ''admin''],
      [SqlInt 3, SqlText ''Luis'', SqlInt 35, SqlText ''normal''],
      [SqlInt 4, SqlText ''Maria'', SqlInt 28, SqlText ''admin'']]"
  using create_table_idempotent
    [of "fst (connect (next_process (fst (main (process empty_store True True)))))"]
  unfolding second_process
  by (simp add: process_def connect_def create_users_def view_def stored_users_def
      user_data_def)

subsection \<open>The commit boundary\<close>

lemma insert_row_rows:
  "insert_row t names p = Inr t' \<Longrightarrow> \<exists>r. rows t' = rows t @ [r]"
  by (auto simp: insert_row_def Let_def split: if_splits sum.splits)

lemma largest_key_Max:
  "largest_key t = Max (insert (seq t) (set (concat (map (key_values (columns t)) (rows t)))))"
proof -
  have "fold max xs x = Max (set (x # xs))" for x :: int and xs
    by (rule Max.set_eq_fold [symmetric])
  then show ?thesis by (simp add: largest_key_def)
qed

lemma key_values_own_row:
  "key_values users_columns [SqlInt k, x, y, z] = [k]"
  by (simp add: key_values_def users_columns_def split: sqlval.splits)

lemma largest_key_after_insert:
  assumes "columns t = users_columns"
  shows "largest_key (t\<lparr>rows := rows t @ [[SqlInt (largest_key t + 1), x, y, z]],
                        seq := largest_key t + 1\<rparr>) = largest_key t + 1"
proof -
  let ?ks = "concat (map (key_values users_columns) (rows t))"
  have old: "largest_key t = Max (insert (seq t) (set ?ks))"
    by (simp add: largest_key_Max assms)
  have below: "k \<le> largest_key t" if "k \<in> set ?ks" for k
    unfolding old using that by (intro Max_ge) simp_all
  have "Max (insert (largest_key t + 1) (set ?ks)) = largest_key t + 1"
  proof (rule Max_eqI)
    show "finite (insert (largest_key t + 1) (set ?ks))" by simp
    show "largest_key t + 1 \<in> insert (largest_key t + 1) (set ?ks)" by simp
    fix k assume "k \<in> insert (largest_key t + 1) (set ?ks)"
    then show "k \<le> largest_key t + 1" using below by fastforce
  qed
  then show ?thesis
    by (simp add: largest_key_Max assms key_values_own_row)
qed

lemma insert_own_row:
  assumes "columns t = users_columns" and "x \<noteq> SqlNull" and "y \<noteq> SqlNull" and "z \<noteq> SqlNull"
  shows "insert_row t [''name'', ''age'', ''rol''] [x, y, z] =
     (if max_key \<le> largest_key t then Inl disk_full
      else Inr (t\<lparr>rows := rows t @ [[SqlInt (largest_key t + 1), x, y, z]],
                 seq := largest_key t + 1\<rparr>))"
  using assms(2-4)
  by (simp add: insert_row_def assms(1) users_columns_def next_key_def cell_def
      violates_not_null_def)

text \<open>A batch of rows for the three named columns, none of them null, into the users
  table of the script: with enough keys left every row is stored under the next key;
  otherwise the batch ends with the engine's full error.\<close>

lemma insert_own_all:
  assumes "d ''users'' = Some t" and "columns t = users_columns"
    and "\<forall>p\<in>set ps. \<exists>x y z. p = [x, y, z] \<and> x \<noteq> SqlNull \<and> y \<noteq> SqlNull \<and> z \<noteq> SqlNull"
  shows "(largest_key t + int (length ps) \<le> max_key \<longrightarrow>
      (\<exists>d'. insert_all ''users'' [''name'', ''age'', ''rol''] d ps = (d', None) \<and>
         stored_users d' = rows t @ with_keys (largest_key t) ps)) \<and>
    (ps \<noteq> [] \<and> \<not> largest_key t + int (length ps) \<le> max_key \<longrightarrow>
      snd (insert_all ''users'' [''name'', ''age'', ''rol''] d ps) = Some disk_full)"
  using assms
proof (induction ps arbitrary: d t)
  case Nil
  then show ?case by (simp add: stored_users_def)
next
  case (Cons p ps)
  have "p \<in> set (p # ps)" by simp
  from bspec [OF Cons.prems(3) this] obtain x y z where
    p: "p = [x, y, z]" and nn: "x \<noteq> SqlNull" "y \<noteq> SqlNull" "z \<noteq> SqlNull"
    by blast
  have later: "\<forall>p\<in>set ps. \<exists>x y z. p = [x, y, z] \<and> x \<noteq> SqlNull \<and> y \<noteq> SqlNull \<and> z \<noteq> SqlNull"
  proof
    fix q assume "q \<in> set ps"
    then have "q \<in> set (p # ps)" by simp
    from bspec [OF Cons.prems(3) this]
    show "\<exists>x y z. q = [x, y, z] \<and> x \<noteq> SqlNull \<and> y \<noteq> SqlNull \<and> z \<noteq> SqlNull" .
  qed
  note row = insert_own_row [OF Cons.prems(2) nn]
  show ?case
  proof (cases "max_key \<le> largest_key t")
    case True
    with row Cons.prems(1) show ?thesis by (simp add: p)
  next
    case False
    let ?t' = "t\<lparr>rows := rows t @ [[SqlInt (largest_key t + 1), x, y, z]],
                   seq := largest_key t + 1\<rparr>"
    let ?d' = "d(''users'' \<mapsto> ?t')"
    have step: "insert_all ''users'' [''name'', ''age'', ''rol''] d (p # ps) =
        insert_all ''users'' [''name'', ''age'', ''rol''] ?d' ps"
      using row False Cons.prems(1) by (simp add: p)
    have t': "?d' ''users'' = Some ?t'" "columns ?t' = users_columns"
      using Cons.prems(2) by simp_all
    have key: "largest_key ?t' = largest_key t + 1"
      by (rule largest_key_after_insert [OF Cons.prems(2)])
    from Cons.IH [of ?d' ?t', OF t' later]
    have enough: "largest_key t + 1 + int (length ps) \<le> max_key \<Longrightarrow>
        \<exists>d'. insert_all ''users'' [''name'', ''age'', ''rol''] ?d' ps = (d', None) \<and>
          stored_users d' = rows ?t' @ with_keys (largest_key t + 1) ps"
      and short: "ps \<noteq> [] \<Longrightarrow> \<not> largest_key t + 1 + int (length ps) \<le> max_key \<Longrightarrow>
        snd (insert_all ''users'' [''name'', ''age'', ''rol''] ?d' ps) = Some disk_full"
      unfolding key by blast+
    show ?thesis
    proof (intro conjI impI)
      assume "largest_key t + int (length (p # ps)) \<le> max_key"
      then have "largest_key t + 1 + int (length ps) \<le> max_key" by simp
      from enough [OF this] obtain d' where
        d': "insert_all ''users'' [''name'', ''age'', ''rol''] ?d' ps = (d', None)"
        "stored_users d' = rows ?t' @ with_keys (largest_key t + 1) ps"
        by blast
      from d'(2) have "stored_users d' = rows t @ with_keys (largest_key t) (p # ps)"
        by (simp add: p)
      with d'(1) show "\<exists>d'. insert_all ''users'' [''name'', ''age'', ''rol''] d (p # ps) = (d', None) \<and>
          stored_users d' = rows t @ with_keys (largest_key t) (p # ps)"
        unfolding step by blast
    next
      assume a: "p # ps \<noteq> [] \<and> \<not> largest_key t + int (length (p # ps)) \<le> max_key"
      with False have "ps \<noteq> []" by (cases ps) simp_all
      moreover from a have "\<not> largest_key t + 1 + int (length ps) \<le> max_key" by simp
      ultimately show "snd (insert_all ''users'' [''name'', ''age'', ''rol''] d (p # ps)) =
          Some disk_full"
        unfolding step by (rule short)
    qed
  qed
qed

lemma user_data_rows:
  "\<forall>p\<in>set user_data. \<exists>x y z. p = [x, y, z] \<and> x \<noteq> SqlNull \<and> y \<noteq> SqlNull \<and> z \<noteq> SqlNull"
  by (simp add: user_data_def)

lemma insert_own_batch:
  assumes "d ''users'' = Some t" and "columns t = users_columns"
  shows "largest_key t + 4 \<le> max_key \<Longrightarrow>
      \<exists>d'. insert_all ''users'' [''name'', ''age'', ''rol''] d user_data = (d', None) \<and>
        stored_users d' = rows t @ with_keys (largest_key t) user_data"
    and "\<not> largest_key t + 4 \<le> max_key \<Longrightarrow>
      snd (insert_all ''users'' [''name'', ''age'', ''rol''] d user_data) = Some disk_full"
  using insert_own_all [of d t user_data, OF assms user_data_rows]
  by (simp_all add: user_data_def)

lemma store_after_commit:
  assumes own: "own_schema (store w)"
  shows "(stored_users (store (fst (script (take 5 store_steps) w))) = stored_users (store w) \<or>
    stored_users (store (fst (script (take 5 store_steps) w))) =
      stored_users (store w) @ with_keys (last_key (store w)) user_data) \<and>
    (snd (script (take 5 store_steps) w) = None \<longrightarrow>
      stored_users (store (fst (script (take 5 store_steps) w))) =
        stored_users (store w) @ with_keys (last_key (store w)) user_data)"
proof -
  have ne: "user_data \<noteq> []" by (simp add: user_data_def)
  show ?thesis
  proof (cases "store w ''users''")
    case None
    have names0: "set [''name'', ''age'', ''rol''] \<subseteq> set (map col_name users_columns)"
      by (simp add: users_columns_def)
    let ?t = "\<lparr>columns = users_columns, rows = [], seq = 0\<rparr>"
    have "largest_key ?t = 0" by (simp add: largest_key_def)
    with insert_own_batch(1) [of "(store w)(''users'' \<mapsto> ?t)" ?t]
    obtain d' where
      "insert_all ''users'' [''name'', ''age'', ''rol''] ((store w)(''users'' \<mapsto> ?t)) user_data =
        (d', None)"
      "stored_users d' = with_keys 0 user_data"
      by (auto simp: max_key_def)
    with None names0 ne show ?thesis
      by (simp add: store_steps_def connect_def new_cursor_def create_users_def insert_users_def
          commit_def view_def write_db_def begin_transaction_def stored_users_def last_key_def
          Let_def del: insert_all.simps)
  next
    case (Some t)
    with own have cols: "columns t = users_columns" by (simp add: own_schema_def)
    note batch = insert_own_batch [of "store w" t, OF Some cols]
    obtain d' e' where ins:
      "insert_all ''users'' [''name'', ''age'', ''rol''] (store w) user_data = (d', e')"
      by (cases "insert_all ''users'' [''name'', ''age'', ''rol''] (store w) user_data")
    have names: "set [''name'', ''age'', ''rol''] \<subseteq> set (map col_name (columns t))"
      by (simp add: cols users_columns_def)
    show ?thesis
    proof (cases "largest_key t + 4 \<le> max_key")
      case True
      with batch(1) ins have e': "e' = None"
        and rows': "stored_users d' = rows t @ with_keys (largest_key t) user_data"
        by auto
      with Some ins names ne show ?thesis
        by (simp add: store_steps_def connect_def new_cursor_def create_users_def
            insert_users_def commit_def view_def write_db_def begin_transaction_def
            stored_users_def last_key_def Let_def del: insert_all.simps)
    next
      case False
      with batch(2) ins have "e' = Some disk_full" by simp
      with Some ins names ne show ?thesis
        by (simp add: store_steps_def connect_def new_cursor_def create_users_def
            insert_users_def commit_def view_def write_db_def begin_transaction_def
            rollback_def stored_users_def last_key_def Let_def del: insert_all.simps)
    qed
  qed
qed

lemma insert_all_count:
  "insert_all ''users'' ns d ps = (d', None) \<Longrightarrow>
     \<exists>new. stored_users d' = stored_users d @ new \<and> length new = length ps"
proof (induction ps arbitrary: d)
  case Nil
  then show ?case by simp
next
  case (Cons p ps)
  from Cons.prems obtain t where t: "d ''users'' = Some t"
    by (cases "d ''users''") simp_all
  from Cons.prems t obtain t' where t': "insert_row t ns p = Inr t'"
    by (cases "insert_row t ns p") simp_all
  from insert_row_rows [OF t'] obtain r where r: "rows t' = rows t @ [r]" by blast
  from Cons.prems t t' have "insert_all ''users'' ns (d(''users'' \<mapsto> t')) ps = (d', None)"
    by simp
  from Cons.IH [OF this] obtain new where
    "stored_users d' = stored_users (d(''users'' \<mapsto> t')) @ new" "length new = length ps"
    by blast
  with t r have "stored_users d' = stored_users d @ (r # new) \<and> length (r # new) = length (p # ps)"
    by (simp add: stored_users_def)
  then show ?case by blast
qed

lemma length_with_keys: "length (with_keys k ps) = length ps"
  by (induction ps arbitrary: k) simp_all

lemma store_after_commit_count:
  "\<exists>new. stored_users (store (fst (script (take 5 store_steps) w))) = stored_users (store w) @ new \<and>
     (new = [] \<or> length new = 4)"
proof (cases "store w ''users''")
  case None
  then have "own_schema (store w)" by (simp add: own_schema_def)
  from store_after_commit [OF this]
  have "stored_users (store (fst (script (take 5 store_steps) w))) = stored_users (store w) \<or>
    stored_users (store (fst (script (take 5 store_steps) w))) =
      stored_users (store w) @ with_keys (last_key (store w)) user_data"
    by blast
  then show ?thesis
  proof
    assume "stored_users (store (fst (script (take 5 store_steps) w))) = stored_users (store w)"
    then show ?thesis by simp
  next
    assume "stored_users (store (fst (script (take 5 store_steps) w))) =
      stored_users (store w) @ with_keys (last_key (store w)) user_data"
    moreover have "length (with_keys (last_key (store w)) user_data) = 4"
      by (simp add: length_with_keys user_data_def)
    ultimately show ?thesis by blast
  qed
next
  case (Some t)
  have ne: "user_data \<noteq> []" by (simp add: user_data_def)
  obtain d' e' where ins: "insert_all ''users'' [''name'', ''age'', ''rol''] (store w) user_data = (d', e')"
    by (cases "insert_all ''users'' [''name'', ''age'', ''rol''] (store w) user_data")
  show ?thesis
  proof (cases e')
    case None
    from insert_all_count [OF ins [unfolded None]] obtain new where
      new: "stored_users d' = stored_users (store w) @ new" "length new = 4"
      by (auto simp: user_data_def)
    have "stored_users (store (fst (script (take 5 store_steps) w))) = stored_users (store w) \<or>
      stored_users (store (fst (script (take 5 store_steps) w))) = stored_users d'"
      using Some ins None ne
      by (simp add: store_steps_def connect_def new_cursor_def create_users_def insert_users_def
          commit_def view_def write_db_def begin_transaction_def Let_def
          del: insert_all.simps)
    with new show ?thesis by auto
  next
    case (Some err)
    have "stored_users (store (fst (script (take 5 store_steps) w))) = stored_users (store w)"
      using \<open>store w ''users'' = Some t\<close> ins Some ne
      by (simp add: store_steps_def connect_def new_cursor_def create_users_def insert_users_def
          commit_def view_def write_db_def begin_transaction_def rollback_def Let_def
          del: insert_all.simps)
    then show ?thesis by simp
  qed
qed

lemma last_steps_keep_store:
  "\<forall>s\<in>set (drop 5 store_steps @ render_steps @ [close]). \<forall>v v' e.
     store v = d \<longrightarrow> s v = (v', e) \<longrightarrow> store v' = d"
  unfolding store_steps_def render_steps_def
  by (auto simp: fetchall_users_def print_def close_def
      dest: print_users_frame split: if_splits option.splits)

lemma main_store_after_commit:
  "store (fst (main w)) = store (fst (script (take 5 store_steps) w)) \<and>
   (snd (main w) = None \<longrightarrow> snd (script (take 5 store_steps) w) = None)"
proof -
  obtain v e where five: "script (take 5 store_steps) w = (v, e)"
    by (cases "script (take 5 store_steps) w")
  have split: "main = script (take 5 store_steps @ (drop 5 store_steps @ render_steps @ [close]))"
    by (simp add: main_def store_steps_def render_steps_def)
  show ?thesis
  proof (cases e)
    case (Some a)
    with five show ?thesis unfolding split script_append by simp
  next
    case None
    obtain w' e' where rest: "script (drop 5 store_steps @ render_steps @ [close]) v = (w', e')"
      by (cases "script (drop 5 store_steps @ render_steps @ [close]) v")
    have "store w' = store v"
      by (rule script_invariant [where I = "\<lambda>x. store x = store v",
            OF last_steps_keep_store _ rest]) simp
    with five None rest show ?thesis unfolding split script_append by simp
  qed
qed

text \<open>
  C7. After the run, whether it completed or raised, the users table in the store file
  holds the rows it held before, followed either by nothing or by four new rows.
  When the users table was missing or was the one the script creates, the four rows
  are the four seed records with the next four keys, and a run that completed has
  stored them.
\<close>

theorem seed_batch_all_or_nothing:
  "(\<exists>new. stored_users (store (fst (main w))) = stored_users (store w) @ new \<and>
      (new = [] \<or> length new = 4)) \<and>
   (own_schema (store w) \<longrightarrow>
      (stored_users (store (fst (main w))) = stored_users (store w) \<or>
       stored_users (store (fst (main w))) =
         stored_users (store w) @ with_keys (last_key (store w)) user_data) \<and>
      (snd (main w) = None \<longrightarrow>
       stored_users (store (fst (main w))) =
         stored_users (store w) @ with_keys (last_key (store w)) user_data))"
  using store_after_commit [of w] store_after_commit_count [of w] main_store_after_commit [of w]
  by simp

text \<open>On the store whose keys run out, the third insert raises, the engine rolls the
  transaction back, and the store file holds none of the four records. On the store
  whose sequence entry is behind its rows, the run completes and the four records
  follow the row that was there, with the keys after the largest key.\<close>

theorem seed_batch_on_full_and_lagging_store:
  "own_schema (store (process nearly_full_store True True)) \<and>
   snd (main (process nearly_full_store True True)) = Some disk_full \<and>
   stored_users (store (fst (main (process nearly_full_store True True)))) =
     stored_users nearly_full_store \<and>
   stored_users (view (fst (main (process nearly_full_store True True)))) =
     stored_users nearly_full_store \<and>
   own_schema (store (process lagging_store True True)) \<and>
   snd (main (process lagging_store True True)) = None \<and>
   stored_users (store (fst (main (process lagging_store True True)))) =
     [[SqlInt 50, SqlText ''Zoe'', SqlInt 40, SqlText ''admin''],
      [SqlInt 51, SqlText ''Basir'', SqlInt 15, SqlText ''normal''],
      [SqlInt 52, SqlText ''Ana'', SqlInt 25, SqlText ''admin''],
      [SqlInt 53, SqlText ''Luis'', SqlInt 35, SqlText ''normal''],
      [SqlInt 54, SqlText ''Maria'', SqlInt 28, SqlText ''admin'']]"
  using seed_batch_all_or_nothing [of "process nearly_full_store True True"]
    seed_batch_all_or_nothing [of "process lagging_store True True"]
  by (simp add: nearly_full_store_def lagging_store_def own_schema_def stored_users_def run_defs)

subsection \<open>Rows are only appended\<close>

lemma appended_refl: "appended d d"
  by (simp add: appended_def)

lemma appended_trans: "appended a b \<Longrightarrow> appended b c \<Longrightarrow> appended a c"
  by (auto simp: appended_def)

lemma appended_new_table:
  "d ''users'' = None \<Longrightarrow> appended d (d(''users'' \<mapsto> \<lparr>columns = cs, rows = [], seq = k\<rparr>))"
  by (simp add: appended_def stored_users_def)

lemma appended_insert_row:
  "d ''users'' = Some t \<Longrightarrow> insert_row t names p = Inr t' \<Longrightarrow> appended d (d(''users'' \<mapsto> t'))"
  by (drule insert_row_rows) (auto simp: appended_def stored_users_def)

lemma insert_all_appended:
  "insert_all ''users'' names d ps = (d', e) \<Longrightarrow> appended d d'"
proof (induction ps arbitrary: d)
  case Nil
  then show ?case by (simp add: appended_refl)
next
  case (Cons p ps)
  show ?case
  proof (cases "d ''users''")
    case None
    with Cons.prems show ?thesis by (simp add: appended_refl)
  next
    case (Some t)
    show ?thesis
    proof (cases "insert_row t names p")
      case (Inl err)
      with Some Cons.prems show ?thesis by (simp add: appended_refl)
    next
      case (Inr t')
      with Some Cons.prems have "insert_all ''users'' names (d(''users'' \<mapsto> t')) ps = (d', e)"
        by simp
      then have "appended (d(''users'' \<mapsto> t')) d'" by (rule Cons.IH)
      moreover from Some Inr have "appended d (d(''users'' \<mapsto> t'))"
        by (rule appended_insert_row)
      ultimately show ?thesis by (blast intro: appended_trans)
    qed
  qed
qed

lemma connect_appended:
  "connect w = (v, e) \<Longrightarrow> appended (store w) (store v) \<and> (e = None \<longrightarrow> appended (store w) (view v))"
  by (auto simp: connect_def view_def appended_refl split: if_splits)

lemma new_cursor_same:
  "new_cursor v = (v', e) \<Longrightarrow> store v' = store v \<and> view v' = view v"
  by (auto simp: new_cursor_def view_def split: if_splits connection.splits)

lemma create_users_appended:
  assumes "execute create_users v = (v', e)"
  shows "(store v' = store v \<or> (store v' = view v' \<and> appended (view v) (view v'))) \<and> appended (view v) (view v')"
  using assms
  by (cases "connection v")
    (auto simp: create_users_def view_def write_db_def appended_refl appended_new_table
      split: if_splits)

lemma select_same:
  "execute (SELECT_ALL_FROM name) v = (v', e) \<Longrightarrow> store v' = store v \<and> view v' = view v"
  by (auto simp: view_def split: if_splits option.splits connection.splits)

lemma insert_users_appended:
  assumes "executemany insert_users ps v = (v', e)"
  shows "store v' = store v \<and> (appended (view v) (view v') \<or> view v' = store v)"
  using assms
  by (cases "connection v")
    (auto simp: insert_users_def view_def write_db_def begin_transaction_def rollback_def
      Let_def appended_refl
      dest: insert_all_appended split: if_splits option.splits prod.splits)

lemma commit_appended:
  "commit v = (v', e) \<Longrightarrow> (store v' = store v \<or> store v' = view v) \<and> view v' = view v"
  by (auto simp: commit_def view_def split: connection.splits)

lemma fetchall_users_same:
  "fetchall_users v = (v', e) \<Longrightarrow> store v' = store v \<and> view v' = view v"
  by (auto simp: fetchall_users_def view_def split: if_splits connection.splits)

lemma print_same: "print line v = (v', e) \<Longrightarrow> store v' = store v \<and> view v' = view v"
  by (auto simp: print_def view_def split: connection.splits)

lemma print_users_same:
  "print_users us v = (v', e) \<Longrightarrow> store v' = store v \<and> view v' = view v"
  by (drule print_users_frame) (simp add: view_def split: connection.splits)

lemma close_same: "close v = (v', e) \<Longrightarrow> store v' = store v \<and> (view v' = view v \<or> view v' = store v)"
  by (auto simp: close_def view_def split: if_splits connection.splits)

lemma later_steps_appended:
  "\<forall>s\<in>set (tl (store_steps @ render_steps @ [close])). \<forall>v v' e.
     appended d (store v) \<and> appended d (view v) \<longrightarrow> s v = (v', e) \<longrightarrow>
     appended d (store v') \<and> appended d (view v')"
  unfolding store_steps_def render_steps_def
  apply (simp del: execute.simps executemany.simps)
  apply (intro conjI allI impI)
                   apply (auto simp del: execute.simps executemany.simps
      dest!: new_cursor_same create_users_appended insert_users_appended commit_appended
        select_same fetchall_users_same print_same print_users_same close_same
      intro: appended_trans)
  done

lemma run_appended:
  "appended (store w) (store (fst (main w)))"
proof -
  obtain wc ec where c: "connect w = (wc, ec)" by (cases "connect w")
  note ca = connect_appended [OF c]
  show ?thesis
  proof (cases ec)
    case (Some a)
    with c have "main w = (wc, Some a)" by (simp add: main_def)
    with ca show ?thesis by simp
  next
    case None
    obtain w' e where m: "main w = (w', e)" by (cases "main w")
    with c None have rest: "script (tl (store_steps @ render_steps @ [close])) wc = (w', e)"
      by (simp add: main_split store_steps_def)
    from ca None have start: "appended (store w) (store wc) \<and> appended (store w) (view wc)"
      by simp
    from script_invariant [where I = "\<lambda>v. appended (store w) (store v) \<and> appended (store w) (view v)",
        OF later_steps_appended start rest]
    show ?thesis by (simp add: m)
  qed
qed

text \<open>
  C8. After a run, the users table of the store file holds every row it held before,
  unchanged and in place, followed by the rows the run added; every other table is as
  it was.
\<close>

theorem run_only_appends:
  "(\<exists>new. stored_users (store (fst (main w))) = stored_users (store w) @ new) \<and>
   (store (fst (main w)))(''users'' := None) = (store w)(''users'' := None)"
  using run_appended [of w] by (simp add: appended_def)

text \<open>The second run keeps the four rows of the first.\<close>

theorem run_only_appends_second_run:
  "take 4 (stored_users (store (fst (main (next_process (fst (main (process empty_store True True)))))))) =
     [[SqlInt 1, SqlText ''Basir'', SqlInt 15, SqlText ''normal''],
      [SqlInt 2, SqlText ''Ana'', SqlInt 25, SqlText ''admin''],
      [SqlInt 3, SqlText ''Luis'', SqlInt 35, SqlText ''normal''],
      [SqlInt 4, SqlText ''Maria'', SqlInt 28, SqlText ''admin'']]"
proof -
  let ?w = "next_process (fst (main (process empty_store True True)))"
  have before: "stored_users (store ?w) = with_keys 0 user_data"
    unfolding second_process by (simp add: process_def stored_users_def)
  from run_only_appends [of ?w] obtain new where
    "stored_users (store (fst (main ?w))) = with_keys 0 user_data @ new"
    unfolding before by blast
  then show ?thesis by (simp add: user_data_def)
qed

section \<open>Properties of the circle class\<close>

lemma radius_setter_returns_only_negative: "radius_setter s v = Some y \<Longrightarrow> v < 0"
  by (rule radius_setter.raw_induct [where P = "\<lambda>s v y. v < 0"]) (simp_all split: if_splits)

lemma radius_setter_loops: "0 \<le> v \<Longrightarrow> radius_setter s v = None"
proof (cases "radius_setter s v")
  case None
  then show ?thesis .
next
  case (Some y)
  assume "0 \<le> v"
  moreover from Some have "v < 0" by (rule radius_setter_returns_only_negative)
  ultimately show ?thesis by simp
qed

lemma radius_setter_negative: "v < 0 \<Longrightarrow> radius_setter s v = Some (Inl ValueError)"
  by (subst radius_setter.simps) simp

text \<open>
  C9, as the code has it. For a radius that is not negative the setter re-enters itself
  without end and the construction does not return. For a negative radius the setter
  raises \<^verbatim>\<open>ValueError\<close> at its first call. No radius gives an instance.
\<close>

theorem circle_never_constructed:
  "(0 \<le> radius \<longrightarrow> Circle radius = None) \<and>
   (radius < 0 \<longrightarrow> Circle radius = Some (Inl ValueError)) \<and>
   Circle radius \<notin> range (\<lambda>c. Some (Inr c))"
  by (cases "0 \<le> radius")
    (auto simp: Circle_def radius_setter_loops radius_setter_negative not_le)

theorem circle_never_constructed_radius_two:
  "(0::real) \<le> 2 \<and> Circle 2 = None"
  using circle_never_constructed [of 2] by simp

text \<open>C9 as stated fails: with the radius of the file's own call, \<open>-5.0\<close>, the construction
  ends at once with \<^verbatim>\<open>ValueError\<close>; the setter is entered once.\<close>

theorem circle_negative_radius_raises:
  "Circle (- 5) = Some (Inl ValueError) \<and> Circle (- 5) \<noteq> None"
  by (simp add: Circle_def radius_setter_negative)

end
